theory Spec2Isabelle
  imports Main
begin

section \<open>Go values used by main.go\<close>

text \<open>
  A Go \<^verbatim>\<open>string\<close> is a \<^typ>\<open>string\<close>, one \<^typ>\<open>char\<close> per code point (the
  inputs considered are ASCII text). A Go \<^verbatim>\<open>map[string]string\<close> is a partial function.
  Reading a missing key with \<^verbatim>\<open>m[k]\<close> gives the zero value, the empty string.
\<close>

type_synonym gomap = "string \<rightharpoonup> string"

definition mapIndex :: "gomap \<Rightarrow> string \<Rightarrow> string" where
  "mapIndex m k = (case m k of None \<Rightarrow> '''' | Some v \<Rightarrow> v)"

text \<open>
  Go does not specify the order in which \<^verbatim>\<open>for k := range m\<close> visits the keys of a map,
  and two traversals of the same map may differ. Every traversal of the program therefore
  takes the order it runs in as an argument; \<open>rangeOrder m ks\<close> says that \<open>ks\<close> is an order
  Go may choose for \<open>m\<close>: every key once.
\<close>

definition rangeOrder :: "gomap \<Rightarrow> string list \<Rightarrow> bool" where
  "rangeOrder m ks \<longleftrightarrow> distinct ks \<and> set ks = dom m"

text \<open>
  The keys that a traversal of \<open>m\<close> visits when it runs in the order \<open>order\<close>: a traversal
  visits keys of the map only. For an order that Go may choose, these are the keys of
  \<open>order\<close>, all of them (lemma \<open>rangeKeys_rangeOrder\<close> below).
\<close>

definition rangeKeys :: "string list \<Rightarrow> gomap \<Rightarrow> string list" where
  "rangeKeys order m = filter (\<lambda>k. m k \<noteq> None) order"

subsection \<open>Compiled regular expressions\<close>

text \<open>
  The package \<^verbatim>\<open>regexp\<close> is a library. A compiled expression is given by the names of its
  parenthesised groups (\<open>''''\<close> for an unnamed group) and by its leftmost match on a
  subject: the matched text and, for each group, the text it captured, or \<open>None\<close> when the
  group took no part in the match. \<^verbatim>\<open>SubexpNames\<close> puts the empty name of the whole
  match first. \<^verbatim>\<open>FindStringSubmatch\<close> returns \<^verbatim>\<open>nil\<close> (here \<open>None\<close>) when there is no
  match, and otherwise one string per entry of \<^verbatim>\<open>SubexpNames\<close>, the empty string for a
  group that took no part (as the library documents for its functions on strings). A
  group for which \<open>findGroups\<close> gives no entry counts as one that took no part, so that
  the result has the library's length whatever the two fields are.
\<close>

record Regexp =
  groupNames :: "string list"
  findGroups :: "string \<Rightarrow> (string \<times> string option list) option"

definition SubexpNames :: "Regexp \<Rightarrow> string list" where
  "SubexpNames re = '''' # groupNames re"

definition groupText :: "string option list \<Rightarrow> nat \<Rightarrow> string" where
  "groupText gs i =
     (if i < length gs then (case gs ! i of None \<Rightarrow> '''' | Some t \<Rightarrow> t) else '''')"

definition FindStringSubmatch :: "Regexp \<Rightarrow> string \<Rightarrow> string list option" where
  "FindStringSubmatch re s =
     (case findGroups re s of
        None \<Rightarrow> None
      | Some (m0, gs) \<Rightarrow> Some (m0 # map (groupText gs) [0..<length (groupNames re)]))"

text \<open>Group \<open>i\<close> (counted from 1, as in \<^verbatim>\<open>match[i]\<close>) took part in the match on \<open>s\<close>.\<close>

definition participated :: "Regexp \<Rightarrow> string \<Rightarrow> nat \<Rightarrow> bool" where
  "participated re s i =
     (case findGroups re s of
        None \<Rightarrow> False
      | Some (m0, gs) \<Rightarrow> 0 < i \<and> i \<le> length gs \<and> i \<le> length (groupNames re)
          \<and> gs ! (i - 1) \<noteq> None)"

subsection \<open>The ordered record\<close>

text \<open>
  Modelled from the spec: the type \<^verbatim>\<open>OrderedMap\<close> with \<^verbatim>\<open>NewOrderedMap\<close> and \<^verbatim>\<open>Set\<close> is
  declared in a file of the repository that is not part of the sources at hand;
  main.go reads and writes its field \<^verbatim>\<open>values\<close> directly. Following section 4.1 of the
  specification, \<open>set(key, value)\<close> appends the key to the order when it is absent and
  overwrites the value in place when it is present.
\<close>

record OrderedMap =
  om_keys :: "string list"
  om_values :: gomap

definition NewOrderedMap :: OrderedMap where
  "NewOrderedMap = \<lparr>om_keys = [], om_values = Map.empty\<rparr>"

definition OrderedMap_Set :: "OrderedMap \<Rightarrow> string \<Rightarrow> string \<Rightarrow> OrderedMap" where
  "OrderedMap_Set m key val =
     (if om_values m key = None
      then m\<lparr>om_keys := om_keys m @ [key], om_values := (om_values m)(key \<mapsto> val)\<rparr>
      else m\<lparr>om_values := (om_values m)(key \<mapsto> val)\<rparr>)"

section \<open>Configuration\<close>

text \<open>
  The two structs of main.go. A pointer to a compiled expression is the expression:
  \<^verbatim>\<open>readConfig\<close> fills \<^verbatim>\<open>regexParsed\<close> for every pattern, and \<^verbatim>\<open>preprocessParsed\<close> is
  read only under \<^verbatim>\<open>preprocessSet\<close>. The field \<^verbatim>\<open>Add\<close> is \<open>None\<close> for a nil map. The field
  \<^verbatim>\<open>prometheusMetricLabels\<close> carries a suffix, the function of that name keeps it.
\<close>

record Pattern =
  Regex :: string
  regexParsed :: Regexp
  Discard :: bool
  Add :: "gomap option"
  Level :: string
  levelSet :: bool

record Config =
  PrometheusPort :: string
  prometheus :: bool
  prometheusMetricLabels_field :: "string list"
  StatsdAddress :: string
  StatsdMetric :: string
  statsd :: bool
  Glog :: string
  glogSet :: bool
  TimestampKey :: string
  timestampKeySet :: bool
  LevelKey :: string
  levelKeySet :: bool
  MessageKey :: string
  Patterns :: "Pattern list"
  Preprocess :: string
  preprocessSet :: bool
  preprocessParsed :: Regexp

section \<open>Slice helpers\<close>

text \<open>\<^verbatim>\<open>unique\<close>: the loop keeps the map of entries seen and the slice built so far.\<close>

fun unique_loop :: "(string \<rightharpoonup> bool) \<Rightarrow> string list \<Rightarrow> string list \<Rightarrow> string list" where
  "unique_loop keys uniq [] = uniq"
| "unique_loop keys uniq (entry # input) =
     (if keys entry = None
      then unique_loop (keys(entry \<mapsto> True)) (uniq @ [entry]) input
      else unique_loop keys uniq input)"

definition unique :: "string list \<Rightarrow> string list" where
  "unique input = unique_loop Map.empty [] input"

text \<open>\<^verbatim>\<open>removeElement\<close>: remove the needle every time it occurs, keeping the order.\<close>

definition removeElement :: "string list \<Rightarrow> string \<Rightarrow> string list" where
  "removeElement haystack needle =
     foldl (\<lambda>clean item. if item \<noteq> needle then clean @ [item] else clean) [] haystack"

text \<open>\<^verbatim>\<open>keys\<close>: the keys of a map, in the order \<open>order\<close> in which this traversal visits them.\<close>

definition keys :: "string list \<Rightarrow> gomap \<Rightarrow> string list" where
  "keys order mymap = foldl (\<lambda>keys k. keys @ [k]) [] (rangeKeys order mymap)"

section \<open>Label schema\<close>

definition prometheusAddCaptures :: "Regexp \<Rightarrow> string list \<Rightarrow> string list" where
  "prometheusAddCaptures re labels =
     foldl (\<lambda>labels name. if name \<noteq> '''' then labels @ [name] else labels)
       labels (SubexpNames re)"

text \<open>
  The loop over the patterns of \<^verbatim>\<open>prometheusMetricLabels\<close>. \<open>its i\<close> is the order in which
  the traversal of the \<^verbatim>\<open>Add\<close> map of pattern number \<open>i\<close> runs.
\<close>

fun labels_loop :: "(nat \<Rightarrow> string list) \<Rightarrow> nat \<Rightarrow> Pattern list \<Rightarrow> string list \<Rightarrow> string list" where
  "labels_loop its i [] labels = labels"
| "labels_loop its i (pattern # patterns) labels =
     (if Discard pattern then labels_loop its (Suc i) patterns labels
      else
        (let labels1 = prometheusAddCaptures (regexParsed pattern) labels;
             labels2 = (case Add pattern of
                          None \<Rightarrow> labels1
                        | Some add \<Rightarrow> labels1 @ keys (its i) add)
         in labels_loop its (Suc i) patterns labels2))"

definition prometheusMetricLabels :: "(nat \<Rightarrow> string list) \<Rightarrow> Config \<Rightarrow> string list" where
  "prometheusMetricLabels its config =
     (let labels0 = (if levelKeySet config then [] @ [LevelKey config] else []);
          labels1 = (if preprocessSet config
                     then prometheusAddCaptures (preprocessParsed config) labels0
                     else labels0);
          labels2 = labels_loop its 0 (Patterns config) labels1;
          labels3 = unique labels2
      in removeElement labels3 (MessageKey config))"

text \<open>
  \<^verbatim>\<open>prometheusLabelValues\<close>: a slice of the schema's length, filled by index.
\<close>

definition prometheusLabelValues :: "gomap \<Rightarrow> Config \<Rightarrow> string list" where
  "prometheusLabelValues labelMap config =
     foldl (\<lambda>values (i, label).
              (case labelMap label of
                 Some v \<Rightarrow> values[i := v]
               | None \<Rightarrow> values[i := '''']))
       (replicate (length (prometheusMetricLabels_field config)) '''')
       (enumerate 0 (prometheusMetricLabels_field config))"

section \<open>Reading the configuration\<close>

text \<open>
  \<^verbatim>\<open>readConfig\<close> from the struct that \<^verbatim>\<open>yaml.Unmarshal\<close> filled (reading the file and
  parsing YAML are the library's). \<open>compile\<close> is \<^verbatim>\<open>regexp.MustCompile\<close>: it gives \<open>None\<close>
  where the library panics on an invalid expression, and then \<^verbatim>\<open>readConfig\<close> does not
  return. \<open>its\<close> gives the orders of the map traversals of the schema derivation.
\<close>

fun compilePatterns :: "(string \<Rightarrow> Regexp option) \<Rightarrow> Pattern list \<Rightarrow> Pattern list option" where
  "compilePatterns compile [] = Some []"
| "compilePatterns compile (p # ps) =
     (case compile (Regex p) of
        None \<Rightarrow> None
      | Some re \<Rightarrow>
          (case compilePatterns compile ps of
             None \<Rightarrow> None
           | Some ps' \<Rightarrow> Some (p\<lparr>regexParsed := re, levelSet := (Level p \<noteq> '''')\<rparr> # ps')))"

definition readConfig ::
  "(nat \<Rightarrow> string list) \<Rightarrow> (string \<Rightarrow> Regexp option) \<Rightarrow> Config \<Rightarrow> Config option" where
  "readConfig its compile parsed =
     (let config1 = (if MessageKey parsed = '''' then parsed\<lparr>MessageKey := ''message''\<rparr>
                     else parsed)
      in case compilePatterns compile (Patterns config1) of
           None \<Rightarrow> None
         | Some ps \<Rightarrow>
             (let config2 = config1\<lparr>Patterns := ps,
                              timestampKeySet := (TimestampKey config1 \<noteq> ''''),
                              levelKeySet := (LevelKey config1 \<noteq> ''''),
                              glogSet := (Glog config1 \<noteq> ''''),
                              preprocessSet := (Preprocess config1 \<noteq> '''')\<rparr>;
                  compiled = (if preprocessSet config2
                              then (case compile (Preprocess config2) of
                                      None \<Rightarrow> None
                                    | Some re \<Rightarrow> Some (config2\<lparr>preprocessParsed := re\<rparr>))
                              else Some config2)
              in case compiled of
                   None \<Rightarrow> None
                 | Some config3 \<Rightarrow>
                     (let config4 = config3\<lparr>prometheus := (PrometheusPort config3 \<noteq> '''')\<rparr>;
                          config5 = config4\<lparr>prometheusMetricLabels_field :=
                                               prometheusMetricLabels its config4\<rparr>
                      in Some (config5\<lparr>statsd := (StatsdAddress config5 \<noteq> '''')\<rparr>))))"

text \<open>
  \<^verbatim>\<open>main\<close> registers the counter of the first backend with a schema it derives anew
  (line 76); \<open>its\<close> gives the orders of that derivation's map traversals.
\<close>

definition main_registered_labels :: "(nat \<Rightarrow> string list) \<Rightarrow> Config \<Rightarrow> string list option" where
  "main_registered_labels its config =
     (if prometheus config then Some (prometheusMetricLabels its config) else None)"

section \<open>The fixed-format detector\<close>

text \<open>
  The character classes of the expression: \<^verbatim>\<open>\d\<close> is an ASCII digit, \<^verbatim>\<open>\S\<close> is any
  character but tab, newline, form feed, carriage return and space.
\<close>

definition isDigit :: "char \<Rightarrow> bool" where
  "isDigit c \<longleftrightarrow> c \<in> set ''0123456789''"

definition isSpace :: "char \<Rightarrow> bool" where
  "isSpace c \<longleftrightarrow> c \<in> {CHR 0x09, CHR 0x0A, CHR 0x0C, CHR 0x0D, CHR '' ''}"

text \<open>
  The token matched by \<^verbatim>\<open>\S+:\d+]\<close> before the closing space. It is the whole run of
  characters up to the next white space (the expression ends in a space, and nothing it
  matches before that space is white space); the run ends in \<^verbatim>\<open>]\<close>, before it stand
  one or more digits, before them a colon, and before the colon at least one character.
\<close>

definition sourceToken :: "string \<Rightarrow> bool" where
  "sourceToken tok =
     (case rev tok of
        [] \<Rightarrow> False
      | c # t \<Rightarrow> c = CHR '']'' \<and> takeWhile isDigit t \<noteq> [] \<and>
          (case dropWhile isDigit t of
             [] \<Rightarrow> False
           | colon # file \<Rightarrow> colon = CHR '':'' \<and> file \<noteq> []))"

text \<open>
  The length of the match of \<^verbatim>\<open>\d+ \d+ \S+:\d+] \<close> at the start of \<open>r\<close>, if there is one.
  Each \<^verbatim>\<open>\d+\<close> is followed by a character that is no digit, so it takes the whole run of
  digits.
\<close>

definition glogTail :: "string \<Rightarrow> nat option" where
  "glogTail r =
     (let frac = takeWhile isDigit r; r1 = dropWhile isDigit r in
      if frac = [] then None
      else case r1 of
        [] \<Rightarrow> None
      | sp1 # r2 \<Rightarrow>
          if sp1 \<noteq> CHR '' '' then None
          else
            (let pid = takeWhile isDigit r2; r3 = dropWhile isDigit r2 in
             if pid = [] then None
             else case r3 of
               [] \<Rightarrow> None
             | sp2 # r4 \<Rightarrow>
                 if sp2 \<noteq> CHR '' '' then None
                 else
                   (let tok = takeWhile (\<lambda>c. \<not> isSpace c) r4;
                        r5 = dropWhile (\<lambda>c. \<not> isSpace c) r4
                    in if sourceToken tok \<and> (case r5 of [] \<Rightarrow> False | sp3 # r6 \<Rightarrow> sp3 = CHR '' '')
                       then Some (length frac + 1 + length pid + 1 + length tok + 1)
                       else None)))"

text \<open>
  \<^verbatim>\<open>glogRegex\<close>, the expression
  \<^verbatim>\<open>^([IWEF])(\d{2})(\d{2}) (\d{2}):(\d{2}):(\d{2})\.\d+ \d+ \S+:\d+] \<close>:
  anchored at the start, fifteen characters of fixed layout with the six groups, then
  the tail. It has at most one match on a subject, so the library's choice among
  matches plays no role.
\<close>

definition glogFind :: "string \<Rightarrow> (string \<times> string option list) option" where
  "glogFind s =
     (case s of
        l # m1 # m2 # d1 # d2 # sp # h1 # h2 # c1 # n1 # n2 # c2 # s1 # s2 # dot # rest \<Rightarrow>
          if l \<in> set ''IWEF'' \<and> list_all isDigit [m1, m2, d1, d2, h1, h2, n1, n2, s1, s2]
             \<and> sp = CHR '' '' \<and> c1 = CHR '':'' \<and> c2 = CHR '':'' \<and> dot = CHR ''.''
          then (case glogTail rest of
                  None \<Rightarrow> None
                | Some n \<Rightarrow>
                    Some (take (15 + n) s,
                          [Some [l], Some [m1, m2], Some [d1, d2],
                           Some [h1, h2], Some [n1, n2], Some [s1, s2]]))
          else None
      | _ \<Rightarrow> None)"

definition glogRegex :: Regexp where
  "glogRegex = \<lparr>groupNames = ['''', '''', '''', '''', '''', ''''], findGroups = glogFind\<rparr>"

definition glogLevels :: gomap where
  "glogLevels = [''I'' \<mapsto> ''INFO'', ''W'' \<mapsto> ''WARN'', ''E'' \<mapsto> ''ERROR'', ''F'' \<mapsto> ''FATAL'']"

section \<open>Library functions of the per-line pipeline\<close>

text \<open>\<^verbatim>\<open>strings.TrimLeft\<close>: drop the leading characters that occur in the cutset.\<close>

definition TrimLeft :: "string \<Rightarrow> string \<Rightarrow> string" where
  "TrimLeft s cutset = dropWhile (\<lambda>c. c \<in> set cutset) s"

text \<open>
  \<^verbatim>\<open>strconv.Atoi\<close>, the number it returns (the program drops the error): an optional
  sign and decimal digits; 0 on a syntax error, the nearest 64-bit integer when the
  number is out of range.
\<close>

definition digitVal :: "char \<Rightarrow> int" where
  "digitVal c = of_char c - 48"

definition Atoi :: "string \<Rightarrow> int" where
  "Atoi s =
     (let body = (case s of
                    [] \<Rightarrow> s
                  | c # r \<Rightarrow> if c = CHR ''-'' \<or> c = CHR ''+'' then r else s)
      in if body = [] \<or> \<not> list_all isDigit body then 0
         else
           (let n = foldl (\<lambda>n ch. n * 10 + digitVal ch) 0 body;
                v = (if hd s = CHR ''-'' then - n else n)
            in if v > 2 ^ 63 - 1 then 2 ^ 63 - 1
               else if v < - (2 ^ 63) then - (2 ^ 63)
               else v))"

text \<open>
  What a call of the pipeline reads from outside: the clock, the library's rendering of
  a date, and the orders of the two map traversals. \<open>nowText\<close> is
  \<^verbatim>\<open>time.Now().Format(timeFormat)\<close> (line 264), \<open>nowYear\<close> is \<^verbatim>\<open>time.Now().Year()\<close>
  (line 291), \<open>dateText y mo d h mi s\<close> is
  \<^verbatim>\<open>time.Date(y, time.Month(mo), d, h, mi, s, 0, time.UTC).Format(timeFormat)\<close>;
  \<open>addOrder i\<close> is the order in which the \<^verbatim>\<open>Add\<close> map of pattern number \<open>i\<close> is traversed
  (line 319), \<open>tagOrder\<close> the order in which \<^verbatim>\<open>statsdTags\<close> traverses the values.
\<close>

record Env =
  nowText :: string
  nowYear :: int
  dateText :: "int \<Rightarrow> int \<Rightarrow> int \<Rightarrow> int \<Rightarrow> int \<Rightarrow> int \<Rightarrow> string"
  addOrder :: "nat \<Rightarrow> string list"
  tagOrder :: "string list"

section \<open>The per-line pipeline\<close>

text \<open>Lines 262 to 269: the fresh record with its default fields.\<close>

definition seed :: "Env \<Rightarrow> string \<Rightarrow> Config \<Rightarrow> OrderedMap" where
  "seed env line config =
     (let log0 = NewOrderedMap;
          log1 = (if timestampKeySet config
                  then OrderedMap_Set log0 (TimestampKey config) (nowText env) else log0);
          log2 = (if levelKeySet config
                  then OrderedMap_Set log1 (LevelKey config) ''INFO'' else log1)
      in OrderedMap_Set log2 (MessageKey config) line)"

text \<open>
  \<^verbatim>\<open>storeCaptures\<close>. Every caller passes a match of the same expression, which has one
  entry per name, so \<^verbatim>\<open>match[i]\<close> is in range and the index cannot panic (lemmas
  \<open>FindStringSubmatch_length\<close> and \<open>storeCaptures_index_in_range\<close> below).
\<close>

definition storeCaptures :: "Regexp \<Rightarrow> OrderedMap \<Rightarrow> string list \<Rightarrow> OrderedMap" where
  "storeCaptures re log match =
     foldl (\<lambda>log (i, name). if i \<noteq> 0 \<and> name \<noteq> '''' then OrderedMap_Set log name (match ! i)
                             else log)
       log (enumerate 0 (SubexpNames re))"

text \<open>Lines 272 to 276: preprocessing.\<close>

definition preprocessStep :: "Config \<Rightarrow> OrderedMap \<Rightarrow> OrderedMap" where
  "preprocessStep config log =
     (if preprocessSet config
      then (case FindStringSubmatch (preprocessParsed config)
                   (mapIndex (om_values log) (MessageKey config)) of
              None \<Rightarrow> log
            | Some match \<Rightarrow> storeCaptures (preprocessParsed config) log match)
      else log)"

text \<open>
  Lines 279 to 301: the fixed-format detector. A match of \<open>glogRegex\<close> has seven entries
  (lemma \<open>glogRegex_length\<close> below), so the indices 0 to 6 are in range.
\<close>

definition glogStep :: "Env \<Rightarrow> Config \<Rightarrow> OrderedMap \<Rightarrow> OrderedMap" where
  "glogStep env config log =
     (if glogSet config
      then (case FindStringSubmatch glogRegex (mapIndex (om_values log) (MessageKey config)) of
              None \<Rightarrow> log
            | Some match \<Rightarrow>
                (let log1 = log\<lparr>om_values := (om_values log)(MessageKey config \<mapsto>
                              TrimLeft (mapIndex (om_values log) (MessageKey config)) (match ! 0))\<rparr>;
                     log2 = (if levelKeySet config
                             then log1\<lparr>om_values := (om_values log1)(LevelKey config \<mapsto>
                                    mapIndex glogLevels (match ! 1))\<rparr>
                             else log1)
                 in if timestampKeySet config
                    then (let year = nowYear env;
                              month = Atoi (match ! 2);
                              day = Atoi (match ! 3);
                              hour = Atoi (match ! 4);
                              min = Atoi (match ! 5);
                              sec = Atoi (match ! 6)
                          in log2\<lparr>om_values := (om_values log2)(TimestampKey config \<mapsto>
                               dateText env year month day hour min sec)\<rparr>)
                    else log2))
      else log)"

text \<open>
  Lines 310 to 321: what a matching rule that does not discard does to the record.
  \<open>i\<close> is the number of the rule in the configured list.
\<close>

definition applyPattern :: "Env \<Rightarrow> Config \<Rightarrow> nat \<Rightarrow> Pattern \<Rightarrow> string list \<Rightarrow> OrderedMap \<Rightarrow> OrderedMap" where
  "applyPattern env config i pattern match log =
     (let log1 = (if levelSet pattern
                  then log\<lparr>om_values := (om_values log)(LevelKey config \<mapsto> Level pattern)\<rparr>
                  else log);
          log2 = storeCaptures (regexParsed pattern) log1 match
      in case Add pattern of
           None \<Rightarrow> log2
         | Some add \<Rightarrow> foldl (\<lambda>log k. OrderedMap_Set log k (mapIndex add k)) log2
                         (rangeKeys (addOrder env i) add))"

text \<open>
  Lines 304 to 325: the loop over the rules. \<open>None\<close> is the \<^verbatim>\<open>return\<close> of a discarding
  rule, which leaves \<^verbatim>\<open>processLine\<close>; \<open>Some\<close> is the record with which the function goes on,
  after the \<^verbatim>\<open>break\<close> or at the end of the list.
\<close>

fun applyPatterns :: "Env \<Rightarrow> Config \<Rightarrow> nat \<Rightarrow> Pattern list \<Rightarrow> OrderedMap \<Rightarrow> OrderedMap option" where
  "applyPatterns env config i [] log = Some log"
| "applyPatterns env config i (pattern # patterns) log =
     (case FindStringSubmatch (regexParsed pattern)
             (mapIndex (om_values log) (MessageKey config)) of
        None \<Rightarrow> applyPatterns env config (Suc i) patterns log
      | Some match \<Rightarrow>
          if Discard pattern then None
          else Some (applyPattern env config i pattern match log))"

text \<open>\<^verbatim>\<open>statsdTags\<close>, with the order in which the values are traversed.\<close>

definition statsdTags :: "string list \<Rightarrow> gomap \<Rightarrow> Config \<Rightarrow> string list" where
  "statsdTags order m config =
     foldl (\<lambda>tags k. if k \<noteq> MessageKey config then tags @ [k @ '':'' @ mapIndex m k] else tags)
       [] (rangeKeys order m)"

text \<open>
  What \<^verbatim>\<open>processLine\<close> does to the outside, in order: the increment of the counter of
  the first backend with its label values, the increment of the second backend with
  the metric's name and its tags, and the printed line, given by the record that
  \<^verbatim>\<open>ToJson\<close> serialises.
\<close>

datatype effect =
    WithLabelValuesInc "string list"
  | StatsdIncr string "string list"
  | Println OrderedMap

text \<open>Lines 326 to 332.\<close>

definition emit :: "Env \<Rightarrow> OrderedMap \<Rightarrow> Config \<Rightarrow> effect list" where
  "emit env log config =
     (if prometheus config
      then [WithLabelValuesInc (prometheusLabelValues (om_values log) config)] else [])
     @ (if statsd config
        then [StatsdIncr (StatsdMetric config) (statsdTags (tagOrder env) (om_values log) config)]
        else [])
     @ [Println log]"

text \<open>The record as it enters the loop over the rules (lines 262 to 301).\<close>

definition beforeRules :: "Env \<Rightarrow> string \<Rightarrow> Config \<Rightarrow> OrderedMap" where
  "beforeRules env line config =
     glogStep env config (preprocessStep config (seed env line config))"

text \<open>The record that \<^verbatim>\<open>processLine\<close> builds, \<open>None\<close> when a rule discards the line.\<close>

definition buildRecord :: "Env \<Rightarrow> string \<Rightarrow> Config \<Rightarrow> OrderedMap option" where
  "buildRecord env line config =
     applyPatterns env config 0 (Patterns config) (beforeRules env line config)"

definition processLine :: "Env \<Rightarrow> string \<Rightarrow> Config \<Rightarrow> effect list" where
  "processLine env line config =
     (case buildRecord env line config of
        None \<Rightarrow> []
      | Some log \<Rightarrow> emit env log config)"

section \<open>Concrete configurations\<close>

text \<open>
  The zero values of the structs, and a clock. The zero expression stands for the nil
  pointer of a struct that \<^verbatim>\<open>readConfig\<close> has not filled.
\<close>

definition nilRegexp :: Regexp where
  "nilRegexp = \<lparr>groupNames = [], findGroups = (\<lambda>s. None)\<rparr>"

definition zeroPattern :: Pattern where
  "zeroPattern = \<lparr>Regex = '''', regexParsed = nilRegexp, Discard = False, Add = None,
     Level = '''', levelSet = False\<rparr>"

definition zeroConfig :: Config where
  "zeroConfig = \<lparr>PrometheusPort = '''', prometheus = False, prometheusMetricLabels_field = [],
     StatsdAddress = '''', StatsdMetric = '''', statsd = False, Glog = '''', glogSet = False,
     TimestampKey = '''', timestampKeySet = False, LevelKey = '''', levelKeySet = False,
     MessageKey = '''', Patterns = [], Preprocess = '''', preprocessSet = False,
     preprocessParsed = nilRegexp\<rparr>"

definition exampleEnv :: Env where
  "exampleEnv = \<lparr>nowText = ''2026-10-31T09:00:00Z'', nowYear = 2026,
     dateText = (\<lambda>y mo d h mi s.
        if y = 2026 \<and> mo = 5 \<and> d = 12 \<and> h = 10 \<and> mi = 30 \<and> s = 1
        then ''2026-05-12T10:30:01Z'' else ''another date''),
     addOrder = (\<lambda>i. []), tagOrder = []\<rparr>"

text \<open>The expression \<^verbatim>\<open>^w\<close> for a word \<open>w\<close> of plain characters: no group.\<close>

definition prefixRegexp :: "string \<Rightarrow> Regexp" where
  "prefixRegexp w =
     \<lparr>groupNames = [], findGroups = (\<lambda>s. if take (length w) s = w then Some (w, []) else None)\<rparr>"

text \<open>
  The expression \<^verbatim>\<open>^a(?P<x>b)?\<close>: the group \<open>x\<close> takes part in the match only when a
  \<open>b\<close> follows the \<open>a\<close>.
\<close>

definition optionalGroupRegexp :: Regexp where
  "optionalGroupRegexp =
     \<lparr>groupNames = [''x''],
      findGroups = (\<lambda>s. case s of
                           [] \<Rightarrow> None
                         | c # r \<Rightarrow>
                             if c \<noteq> CHR ''a'' then None
                             else (case r of
                                     [] \<Rightarrow> Some (''a'', [None])
                                   | c2 # r2 \<Rightarrow>
                                       if c2 = CHR ''b'' then Some (''ab'', [Some ''b''])
                                       else Some (''a'', [None])))\<rparr>"

text \<open>
  The expression \<^verbatim>\<open>(?s)^.(?P<name>.*)$\<close>: it matches every subject that is not empty,
  and its group captures all but the first character.
\<close>

definition restRegexp :: "string \<Rightarrow> Regexp" where
  "restRegexp name =
     \<lparr>groupNames = [name],
      findGroups = (\<lambda>s. case s of [] \<Rightarrow> None | c # r \<Rightarrow> Some (s, [Some r]))\<rparr>"

text \<open>
  A configuration file with a level key, the first backend enabled and one rule with a
  named group and an addition: three labels.
\<close>

definition threeLabelParsed :: Config where
  "threeLabelParsed = zeroConfig\<lparr>LevelKey := ''level'', PrometheusPort := ''9090'',
     Patterns := [zeroPattern\<lparr>Regex := ''(?s)^.(?P<host>.*)$'',
                    Add := Some [''app'' \<mapsto> ''web'']\<rparr>]\<rparr>"

text \<open>
  Four rules: the second discards, the third and the fourth both match a line that
  starts with \<open>error\<close>; both backends are enabled.
\<close>

definition infoRule :: Pattern where
  "infoRule = zeroPattern\<lparr>Regex := ''^info'', regexParsed := prefixRegexp ''info'',
     Level := ''INFO'', levelSet := True\<rparr>"

definition debugRule :: Pattern where
  "debugRule = zeroPattern\<lparr>Regex := ''^debug'', regexParsed := prefixRegexp ''debug'',
     Discard := True\<rparr>"

definition errorRule :: Pattern where
  "errorRule = zeroPattern\<lparr>Regex := ''^error'', regexParsed := prefixRegexp ''error'',
     Level := ''ERROR'', levelSet := True, Add := Some [''kind'' \<mapsto> ''first'']\<rparr>"

definition errRule :: Pattern where
  "errRule = zeroPattern\<lparr>Regex := ''^err'', regexParsed := prefixRegexp ''err'',
     Level := ''WARN'', levelSet := True,
     Add := Some [''kind'' \<mapsto> ''second'', ''extra'' \<mapsto> ''yes'']\<rparr>"

definition rulesConfig :: Config where
  "rulesConfig = zeroConfig\<lparr>MessageKey := ''message'', LevelKey := ''level'',
     levelKeySet := True, Patterns := [infoRule, debugRule, errorRule, errRule],
     PrometheusPort := ''9090'', prometheus := True,
     prometheusMetricLabels_field := [''level'', ''kind'', ''extra''],
     StatsdAddress := ''localhost:8125'', StatsdMetric := ''logs'', statsd := True\<rparr>"

definition rulesEnv :: Env where
  "rulesEnv = exampleEnv\<lparr>addOrder := (\<lambda>i. if i = 2 then [''kind''] else [''kind'', ''extra'']),
     tagOrder := [''kind'', ''message'', ''level'']\<rparr>"

text \<open>
  Fixed-format detection with a level key and a timestamp key, and nothing else.
\<close>

definition glogConfig :: Config where
  "glogConfig = zeroConfig\<lparr>MessageKey := ''message'', TimestampKey := ''ts'',
     timestampKeySet := True, LevelKey := ''level'', levelKeySet := True,
     Glog := ''simple'', glogSet := True\<rparr>"








text \<open>
  Preprocessing patterns: one whose group is named like the message key, one whose
  group has another name, and one with an optional group.
\<close>

definition captureMessageConfig :: Config where
  "captureMessageConfig = zeroConfig\<lparr>MessageKey := ''message'',
     Preprocess := ''(?s)^.(?P<message>.*)$'', preprocessSet := True,
     preprocessParsed := restRegexp ''message''\<rparr>"

definition captureTextConfig :: Config where
  "captureTextConfig = zeroConfig\<lparr>MessageKey := ''message'',
     Preprocess := ''(?s)^.(?P<text>.*)$'', preprocessSet := True,
     preprocessParsed := restRegexp ''text''\<rparr>"

definition optionalGroupConfig :: Config where
  "optionalGroupConfig = zeroConfig\<lparr>MessageKey := ''message'',
     Preprocess := ''^a(?P<x>b)?'', preprocessSet := True,
     preprocessParsed := optionalGroupRegexp\<rparr>"

text \<open>
  No level key, the second backend enabled, and after a rule for other lines a rule that
  sets a level: with an addition under the key \<open>kind\<close>, and with an addition under the
  empty key.
\<close>

definition boomRule :: Pattern where
  "boomRule = zeroPattern\<lparr>Regex := ''^boom'', regexParsed := prefixRegexp ''boom'',
     Level := ''WARN'', levelSet := True, Add := Some [''kind'' \<mapsto> ''db'']\<rparr>"

definition boomEmptyKeyRule :: Pattern where
  "boomEmptyKeyRule = zeroPattern\<lparr>Regex := ''^boom'', regexParsed := prefixRegexp ''boom'',
     Level := ''WARN'', levelSet := True, Add := Some ['''' \<mapsto> ''x'']\<rparr>"

definition noLevelKeyConfig :: "Pattern \<Rightarrow> Config" where
  "noLevelKeyConfig rule = zeroConfig\<lparr>MessageKey := ''message'', Patterns := [infoRule, rule],
     StatsdAddress := ''localhost:8125'', StatsdMetric := ''logs'', statsd := True\<rparr>"

definition boomEnv :: Env where
  "boomEnv = exampleEnv\<lparr>addOrder := (\<lambda>i. [''kind'']), tagOrder := [''kind'', '''', ''message'']\<rparr>"

definition boomEmptyKeyEnv :: Env where
  "boomEmptyKeyEnv = exampleEnv\<lparr>addOrder := (\<lambda>i. ['''']), tagOrder := ['''', ''message'']\<rparr>"

text \<open>
  A configuration file with the first backend enabled and one rule with two additions,
  and a compiler that knows the expressions of the configuration files above.
\<close>

definition twoAdditionsParsed :: Config where
  "twoAdditionsParsed = zeroConfig\<lparr>PrometheusPort := ''9090'',
     Patterns := [zeroPattern\<lparr>Regex := ''^x'', Add := Some [''a'' \<mapsto> ''1'', ''b'' \<mapsto> ''2'']\<rparr>]\<rparr>"

definition compileExample :: "string \<Rightarrow> Regexp option" where
  "compileExample r =
     (if r = ''^x'' then Some (prefixRegexp ''x'')
      else if r = ''(?s)^.(?P<host>.*)$'' then Some (restRegexp ''host'')
      else None)"

text \<open>
  For the schema: the names a rule contributes, and the orders \<open>its\<close> being orders that Go
  may choose for the \<^verbatim>\<open>Add\<close> maps of the rules, numbered from \<open>i\<close>.
\<close>

definition ruleLabels :: "Pattern \<Rightarrow> string set" where
  "ruleLabels p =
     (if Discard p then {}
      else {name \<in> set (groupNames (regexParsed p)). name \<noteq> ''''}
           \<union> (case Add p of None \<Rightarrow> {} | Some add \<Rightarrow> dom add))"

fun validOrders :: "(nat \<Rightarrow> string list) \<Rightarrow> nat \<Rightarrow> Pattern list \<Rightarrow> bool" where
  "validOrders its i [] = True"
| "validOrders its i (p # ps) =
     ((case Add p of None \<Rightarrow> True | Some add \<Rightarrow> rangeOrder add (its i))
      \<and> validOrders its (Suc i) ps)"

section \<open>Properties of the slice helpers\<close>

lemma unique_loop_set:
  "set (unique_loop seen uniq input) = set uniq \<union> {x \<in> set input. seen x = None}"
  by (induction input arbitrary: seen uniq) auto

lemma unique_loop_distinct:
  "distinct uniq \<Longrightarrow> set uniq \<subseteq> dom seen \<Longrightarrow> distinct (unique_loop seen uniq input)"
proof (induction input arbitrary: seen uniq)
  case Nil
  then show ?case by simp
next
  case (Cons entry input)
  show ?case
  proof (cases "seen entry = None")
    case True
    with Cons.prems have fresh: "entry \<notin> set uniq" by (auto simp: dom_def)
    have "distinct (unique_loop (seen(entry \<mapsto> True)) (uniq @ [entry]) input)"
    proof (rule Cons.IH)
      show "distinct (uniq @ [entry])" using Cons.prems fresh by simp
      show "set (uniq @ [entry]) \<subseteq> dom (seen(entry \<mapsto> True))" using Cons.prems by auto
    qed
    with True show ?thesis by simp
  next
    case False
    have "distinct (unique_loop seen uniq input)"
      using Cons.prems by (rule Cons.IH)
    with False show ?thesis by auto
  qed
qed

lemma unique_distinct: "distinct (unique input)"
  by (simp add: unique_def unique_loop_distinct)

lemma unique_set: "set (unique input) = set input"
  by (simp add: unique_def unique_loop_set)

lemma removeElement_foldl:
  "foldl (\<lambda>clean item. if item \<noteq> needle then clean @ [item] else clean) acc haystack
     = acc @ filter (\<lambda>item. item \<noteq> needle) haystack"
  by (induction haystack arbitrary: acc) auto

lemma removeElement_filter: "removeElement haystack needle = filter (\<lambda>item. item \<noteq> needle) haystack"
  by (simp add: removeElement_def removeElement_foldl)

lemma rangeKeys_rangeOrder: "rangeOrder m ks \<Longrightarrow> rangeKeys ks m = ks"
  by (auto simp: rangeOrder_def rangeKeys_def filter_id_conv)

lemma keys_order: "keys order mymap = rangeKeys order mymap"
proof -
  have "foldl (\<lambda>keys k. keys @ [k]) acc ks = acc @ ks" for acc ks :: "string list"
    by (induction ks arbitrary: acc) auto
  then show ?thesis by (simp add: keys_def)
qed

section \<open>Properties of the library model and of the record\<close>

lemma FindStringSubmatch_length:
  "FindStringSubmatch re s = Some match \<Longrightarrow> length match = length (SubexpNames re)"
  by (auto simp: FindStringSubmatch_def SubexpNames_def split: option.splits)

lemma storeCaptures_index_in_range:
  assumes "FindStringSubmatch re s = Some match"
  shows "\<forall>(i, name) \<in> set (enumerate 0 (SubexpNames re)). i < length match"
  using FindStringSubmatch_length[OF assms] by (auto simp: in_set_enumerate_eq)

lemma glogRegex_length:
  "FindStringSubmatch glogRegex s = Some match \<Longrightarrow> length match = 7"
  by (drule FindStringSubmatch_length) (simp add: SubexpNames_def glogRegex_def)

lemma OrderedMap_Set_values:
  "om_values (OrderedMap_Set m key val) = (om_values m)(key \<mapsto> val)"
  by (simp add: OrderedMap_Set_def)

lemma OrderedMap_Set_keys:
  "om_keys (OrderedMap_Set m key val) =
     (if om_values m key = None then om_keys m @ [key] else om_keys m)"
  by (simp add: OrderedMap_Set_def)

text \<open>The loop of \<open>storeCaptures\<close> as a sequence of calls of \<open>Set\<close>, one per named group.\<close>

lemma storeCaptures_enumerate:
  "k + length names \<le> length match \<Longrightarrow> 0 < k \<Longrightarrow>
   foldl (\<lambda>log (i, name). if i \<noteq> 0 \<and> name \<noteq> '''' then OrderedMap_Set log name (match ! i)
                             else log) log (enumerate k names)
   = foldl (\<lambda>log (name, v). OrderedMap_Set log name v) log
       (filter (\<lambda>(name, v). name \<noteq> '''') (zip names (drop k match)))"
proof (induction names arbitrary: k log)
  case Nil
  then show ?case by simp
next
  case (Cons name names)
  from Cons.prems have k: "k < length match" by simp
  then have d: "drop k match = match ! k # drop (Suc k) match"
    by (simp add: Cons_nth_drop_Suc)
  have step: "Suc k + length names \<le> length match" "0 < Suc k" using Cons.prems by simp_all
  show ?case using Cons.IH[OF step] Cons.prems(2) by (simp add: d)
qed

lemma storeCaptures_calls:
  assumes "length match = length (SubexpNames re)"
  shows "storeCaptures re log match =
     foldl (\<lambda>log (name, v). OrderedMap_Set log name v) log
       (filter (\<lambda>(name, v). name \<noteq> '''') (zip (groupNames re) (tl match)))"
proof -
  have "Suc 0 + length (groupNames re) \<le> length match" using assms by (simp add: SubexpNames_def)
  from storeCaptures_enumerate[OF this, of log]
  show ?thesis by (simp add: storeCaptures_def SubexpNames_def drop_Suc)
qed

lemma Set_calls_values:
  "om_values (foldl (\<lambda>log (name, v). OrderedMap_Set log name v) log kvs) =
     om_values log ++ map_of (rev kvs)"
proof (induction kvs arbitrary: log)
  case Nil
  then show ?case by simp
next
  case (Cons kv kvs)
  obtain name v where kv: "kv = (name, v)" by (cases kv)
  have "(om_values log)(name \<mapsto> v) = om_values log ++ [name \<mapsto> v]" by simp
  then show ?case using Cons.IH[of "OrderedMap_Set log name v"]
    by (simp add: kv OrderedMap_Set_values del: map_add_upd)
qed

section \<open>What \<open>readConfig\<close> establishes\<close>

lemma compilePatterns_fields:
  "compilePatterns compile ps = Some ps' \<Longrightarrow>
   map Discard ps' = map Discard ps \<and> map Add ps' = map Add ps \<and> map Level ps' = map Level ps
   \<and> (\<forall>p \<in> set ps'. levelSet p \<longleftrightarrow> Level p \<noteq> '''')
   \<and> map (Some \<circ> regexParsed) ps' = map (compile \<circ> Regex) ps"
  by (induction ps arbitrary: ps') (auto split: option.splits)

lemma prometheusMetricLabels_fields:
  "prometheusMetricLabels its (config\<lparr>prometheusMetricLabels_field := ls\<rparr>) = prometheusMetricLabels its config"
  "prometheusMetricLabels its (config\<lparr>statsd := b\<rparr>) = prometheusMetricLabels its config"
  by (simp_all add: prometheusMetricLabels_def)

lemma readConfig_establishes:
  assumes "readConfig its compile parsed = Some config"
  shows "MessageKey config \<noteq> ''''"
    and "levelKeySet config \<longleftrightarrow> LevelKey config \<noteq> ''''"
    and "timestampKeySet config \<longleftrightarrow> TimestampKey config \<noteq> ''''"
    and "glogSet config \<longleftrightarrow> Glog config \<noteq> ''''"
    and "preprocessSet config \<longleftrightarrow> Preprocess config \<noteq> ''''"
    and "prometheus config \<longleftrightarrow> PrometheusPort config \<noteq> ''''"
    and "statsd config \<longleftrightarrow> StatsdAddress config \<noteq> ''''"
    and "prometheusMetricLabels_field config = prometheusMetricLabels its config"
    and "\<forall>p \<in> set (Patterns config). levelSet p \<longleftrightarrow> Level p \<noteq> ''''"
  using assms
  by (auto simp: readConfig_def Let_def prometheusMetricLabels_fields
        dest: compilePatterns_fields split: option.splits if_splits)

section \<open>The label schema and the value array\<close>

text \<open>
  C4. For every configuration and whatever the orders of the map traversals, the
  derived label schema has no name twice and does not contain the message key.
\<close>

theorem schema_distinct_without_message_key:
  "distinct (prometheusMetricLabels its config) \<and>
   MessageKey config \<notin> set (prometheusMetricLabels its config)"
  by (simp add: prometheusMetricLabels_def Let_def removeElement_filter unique_distinct)

lemma labelValues_foldl:
  "length vs = k + length ls \<Longrightarrow>
   foldl (\<lambda>values (i, label).
            (case m label of
               Some v \<Rightarrow> values[i := v]
             | None \<Rightarrow> values[i := ''''])) vs (enumerate k ls)
     = take k vs @ map (mapIndex m) ls"
proof (induction ls arbitrary: k vs)
  case Nil
  then show ?case by simp
next
  case (Cons l ls)
  let ?x = "mapIndex m l"
  have len: "length (vs[k := ?x]) = Suc k + length ls" using Cons.prems by simp
  have "take (Suc k) (vs[k := ?x]) = take k vs @ [?x]"
    using Cons.prems by (simp add: take_Suc_conv_app_nth)
  with Cons.IH[OF len] show ?case
    by (simp add: mapIndex_def split: option.splits)
qed

lemma prometheusLabelValues_map:
  "prometheusLabelValues labelMap config =
     map (mapIndex labelMap) (prometheusMetricLabels_field config)"
  using labelValues_foldl[of "replicate (length (prometheusMetricLabels_field config)) ''''" 0
      "prometheusMetricLabels_field config" labelMap]
  by (simp add: prometheusLabelValues_def)

text \<open>
  C5. For every record and every schema cached in the configuration, the value array
  built for the first backend has the length of the schema, and its entry number \<open>i\<close> is
  the record's value for the schema's name number \<open>i\<close> when the record has that key, and
  the empty string otherwise.
\<close>

theorem label_values_follow_schema:
  "length (prometheusLabelValues labelMap config) = length (prometheusMetricLabels_field config) \<and>
   (\<forall>i < length (prometheusMetricLabels_field config).
      prometheusLabelValues labelMap config ! i =
        (case labelMap (prometheusMetricLabels_field config ! i) of
           Some v \<Rightarrow> v
         | None \<Rightarrow> ''''))"
  by (simp add: prometheusLabelValues_map mapIndex_def)

theorem label_values_follow_schema_witness:
  "\<exists>config. readConfig (\<lambda>i. [''app'']) compileExample threeLabelParsed = Some config
     \<and> prometheusMetricLabels_field config = [''level'', ''host'', ''app'']
     \<and> length (prometheusLabelValues [''host'' \<mapsto> ''db1'', ''message'' \<mapsto> ''started''] config) = 3
     \<and> prometheusLabelValues [''host'' \<mapsto> ''db1'', ''message'' \<mapsto> ''started''] config ! 0 = ''''
     \<and> prometheusLabelValues [''host'' \<mapsto> ''db1'', ''message'' \<mapsto> ''started''] config ! 1 = ''db1''
     \<and> prometheusLabelValues [''host'' \<mapsto> ''db1'', ''message'' \<mapsto> ''started''] config ! 2 = ''''"
proof -
  have "\<exists>config. readConfig (\<lambda>i. [''app'']) compileExample threeLabelParsed = Some config
     \<and> prometheusMetricLabels_field config = [''level'', ''host'', ''app'']"
    by (auto simp: readConfig_def threeLabelParsed_def compileExample_def zeroConfig_def
        zeroPattern_def prefixRegexp_def restRegexp_def nilRegexp_def
        prometheusMetricLabels_def prometheusAddCaptures_def SubexpNames_def keys_def rangeKeys_def unique_def
        removeElement_def Let_def)
  then obtain config where r: "readConfig (\<lambda>i. [''app'']) compileExample threeLabelParsed = Some config"
    and f: "prometheusMetricLabels_field config = [''level'', ''host'', ''app'']"
    by blast
  from label_values_follow_schema[of "[''host'' \<mapsto> ''db1'', ''message'' \<mapsto> ''started'']" config] f
  have "length (prometheusLabelValues [''host'' \<mapsto> ''db1'', ''message'' \<mapsto> ''started''] config) = 3
     \<and> prometheusLabelValues [''host'' \<mapsto> ''db1'', ''message'' \<mapsto> ''started''] config ! 0 = ''''
     \<and> prometheusLabelValues [''host'' \<mapsto> ''db1'', ''message'' \<mapsto> ''started''] config ! 1 = ''db1''
     \<and> prometheusLabelValues [''host'' \<mapsto> ''db1'', ''message'' \<mapsto> ''started''] config ! 2 = ''''"
    by simp
  with r f show ?thesis by blast
qed

section \<open>The loop over the rules\<close>

lemmas example_defs = rulesConfig_def rulesEnv_def exampleEnv_def zeroConfig_def
  zeroPattern_def infoRule_def errorRule_def errRule_def debugRule_def prefixRegexp_def nilRegexp_def

lemmas pipeline_defs = beforeRules_def seed_def preprocessStep_def glogStep_def NewOrderedMap_def
  OrderedMap_Set_def mapIndex_def FindStringSubmatch_def applyPattern_def storeCaptures_def
  SubexpNames_def rangeKeys_def Let_def

lemma applyPatterns_skip:
  "\<forall>q \<in> set ps1. FindStringSubmatch (regexParsed q)
       (mapIndex (om_values log) (MessageKey config)) = None
   \<Longrightarrow> applyPatterns env config i (ps1 @ ps) log = applyPatterns env config (i + length ps1) ps log"
  by (induction ps1 arbitrary: i) auto


text \<open>
  C1. The rules are scanned in the configured order and the scan stops at the first rule
  whose pattern matches the message value: when the rules before \<open>p\<close> do not match and \<open>p\<close>
  does, the record built for the line is the one that \<open>p\<close> alone produces from the record
  that entered the loop (or none, when \<open>p\<close> discards), whatever the rules after \<open>p\<close> are
  and whether they match or not.
\<close>

theorem first_match_wins:
  assumes "Patterns config = ps1 @ p # ps2"
    and "\<forall>q \<in> set ps1. FindStringSubmatch (regexParsed q)
           (mapIndex (om_values (beforeRules env line config)) (MessageKey config)) = None"
    and "FindStringSubmatch (regexParsed p)
           (mapIndex (om_values (beforeRules env line config)) (MessageKey config)) = Some match"
  shows "buildRecord env line config =
           (if Discard p then None
            else Some (applyPattern env config (length ps1) p match (beforeRules env line config)))"
  using assms applyPatterns_skip[of ps1 "beforeRules env line config" config env 0 "p # ps2"]
  by (simp add: buildRecord_def)

theorem first_match_wins_witness:
  "FindStringSubmatch (regexParsed errRule) ''error: disk full'' \<noteq> None \<and>
   (\<exists>log. buildRecord rulesEnv ''error: disk full'' rulesConfig = Some log
      \<and> om_keys log = [''level'', ''message'', ''kind'']
      \<and> om_values log ''level'' = Some ''ERROR''
      \<and> om_values log ''kind'' = Some ''first''
      \<and> om_values log ''extra'' = None)"
  using first_match_wins[of rulesConfig "[infoRule, debugRule]" errorRule "[errRule]" rulesEnv
     "''error: disk full''" "[''error'']"]
  by (simp add: example_defs pipeline_defs)

text \<open>
  C2. When the first rule that matches the line has its discard flag set,
  \<^verbatim>\<open>processLine\<close> does nothing to the outside: no counter of the first backend is
  incremented, none of the second, and no line is printed.
\<close>

theorem discard_stops_pipeline:
  assumes "Patterns config = ps1 @ p # ps2"
    and "\<forall>q \<in> set ps1. FindStringSubmatch (regexParsed q)
           (mapIndex (om_values (beforeRules env line config)) (MessageKey config)) = None"
    and "FindStringSubmatch (regexParsed p)
           (mapIndex (om_values (beforeRules env line config)) (MessageKey config)) \<noteq> None"
    and "Discard p"
  shows "processLine env line config = []"
proof -
  from assms(3) obtain match where m: "FindStringSubmatch (regexParsed p)
           (mapIndex (om_values (beforeRules env line config)) (MessageKey config)) = Some match"
    by auto
  have "applyPatterns env config 0 (ps1 @ p # ps2) (beforeRules env line config)
        = applyPatterns env config (0 + length ps1) (p # ps2) (beforeRules env line config)"
    using assms(2) by (rule applyPatterns_skip)
  with m assms(1,4) have "buildRecord env line config = None"
    by (simp add: buildRecord_def)
  then show ?thesis by (simp add: processLine_def)
qed

theorem discard_stops_pipeline_witness:
  "prometheus rulesConfig \<and> statsd rulesConfig \<and>
   processLine rulesEnv ''debug: cache miss'' rulesConfig = []"
  using discard_stops_pipeline[of rulesConfig "[infoRule]" debugRule "[errorRule, errRule]"
     rulesEnv "''debug: cache miss''"]
  by (simp add: example_defs pipeline_defs)

section \<open>The fixed-format detector on a line\<close>











lemma glog_match_items:
  "FindStringSubmatch glogRegex ''I0512 10:30:01.123456 123 file.go:10] 10 items'' =
     Some [''I0512 10:30:01.123456 123 file.go:10] '', ''I'', ''05'', ''12'', ''10'', ''30'', ''01'']"
  by (simp add: FindStringSubmatch_def glogRegex_def glogFind_def glogTail_def isDigit_def isSpace_def
      sourceToken_def groupText_def Let_def upt_rec)

lemma glogStep_message:
  assumes "glogSet config"
    and "levelKeySet config \<longrightarrow> LevelKey config \<noteq> MessageKey config"
    and "timestampKeySet config \<longrightarrow> TimestampKey config \<noteq> MessageKey config"
    and "FindStringSubmatch glogRegex (mapIndex (om_values log) (MessageKey config)) = Some match"
  shows "om_values (glogStep env config log) (MessageKey config) =
           Some (dropWhile (\<lambda>c. c \<in> set (match ! 0)) (mapIndex (om_values log) (MessageKey config)))"
  using assms by (auto simp: glogStep_def Let_def TrimLeft_def)

text \<open>
  C8. The detector strips the prefix by \<^verbatim>\<open>strings.TrimLeft\<close> with the matched text as
  the set of characters to drop: the new message is the old one without its longest
  leading run of characters that occur in the matched text. For the line
  \<^verbatim>\<open>I0512 10:30:01.123456 123 file.go:10] 10 items\<close> the text after the match is
  \<open>10 items\<close>, and the message becomes \<open>tems\<close>: the characters \<open>1\<close>, \<open>0\<close>, the space
  and \<open>i\<close> occur in the matched prefix.
\<close>

theorem glog_strips_by_character_set:
  assumes "glogSet config"
    and "levelKeySet config \<longrightarrow> LevelKey config \<noteq> MessageKey config"
    and "timestampKeySet config \<longrightarrow> TimestampKey config \<noteq> MessageKey config"
  shows "(\<forall>(log::OrderedMap) match.
            FindStringSubmatch glogRegex (mapIndex (om_values log) (MessageKey config)) = Some match
            \<longrightarrow> om_values (glogStep env config log) (MessageKey config) =
                  Some (dropWhile (\<lambda>c. c \<in> set (match ! 0))
                          (mapIndex (om_values log) (MessageKey config))))
       \<and> (\<exists>match. FindStringSubmatch glogRegex
                      ''I0512 10:30:01.123456 123 file.go:10] 10 items'' = Some match
             \<and> drop (length (match ! 0)) ''I0512 10:30:01.123456 123 file.go:10] 10 items''
                 = ''10 items''
             \<and> om_values (glogStep env config
                   (seed env ''I0512 10:30:01.123456 123 file.go:10] 10 items'' config))
                   (MessageKey config) = Some ''tems'')"
proof (intro conjI allI impI)
  fix log :: OrderedMap and match
  assume "FindStringSubmatch glogRegex (mapIndex (om_values log) (MessageKey config)) = Some match"
  with assms show "om_values (glogStep env config log) (MessageKey config) =
                  Some (dropWhile (\<lambda>c. c \<in> set (match ! 0))
                          (mapIndex (om_values log) (MessageKey config)))"
    by (rule glogStep_message)
next
  let ?line = "''I0512 10:30:01.123456 123 file.go:10] 10 items''"
  let ?match = "[''I0512 10:30:01.123456 123 file.go:10] '', ''I'', ''05'', ''12'', ''10'', ''30'', ''01'']"
  have msg: "mapIndex (om_values (seed env ?line config)) (MessageKey config) = ?line"
    by (simp add: seed_def Let_def OrderedMap_Set_values mapIndex_def)
  have m: "FindStringSubmatch glogRegex
             (mapIndex (om_values (seed env ?line config)) (MessageKey config)) = Some ?match"
    by (simp add: msg glog_match_items)
  have "om_values (glogStep env config (seed env ?line config)) (MessageKey config) =
          Some (dropWhile (\<lambda>c. c \<in> set (?match ! 0)) ?line)"
    using glogStep_message[OF assms m, of env] by (simp add: msg)
  then have "om_values (glogStep env config (seed env ?line config)) (MessageKey config) = Some ''tems''"
    by simp
  moreover have "drop (length (?match ! 0)) ?line = ''10 items''" by simp
  ultimately show "\<exists>match. FindStringSubmatch glogRegex ?line = Some match
             \<and> drop (length (match ! 0)) ?line = ''10 items''
             \<and> om_values (glogStep env config (seed env ?line config)) (MessageKey config) = Some ''tems''"
    using glog_match_items by blast
qed

theorem glog_strips_by_character_set_witness:
  "MessageKey glogConfig = ''message'' \<and>
   om_values (glogStep exampleEnv glogConfig
      (seed exampleEnv ''I0512 10:30:01.123456 123 file.go:10] 10 items'' glogConfig))
      (MessageKey glogConfig) = Some ''tems''"
proof -
  have h1: "glogSet glogConfig"
    and h2: "levelKeySet glogConfig \<longrightarrow> LevelKey glogConfig \<noteq> MessageKey glogConfig"
    and h3: "timestampKeySet glogConfig \<longrightarrow> TimestampKey glogConfig \<noteq> MessageKey glogConfig"
    and k: "MessageKey glogConfig = ''message''"
    by (simp_all add: glogConfig_def zeroConfig_def)
  from glog_strips_by_character_set[OF h1 h2 h3, of exampleEnv] k show ?thesis by blast
qed

section \<open>Capture extraction and preprocessing\<close>

lemma Set_calls_texts:
  "foldl (\<lambda>log (name, v). OrderedMap_Set log name v) log
     (filter (\<lambda>(name, v). name \<noteq> '''') (zip names (map f idx)))
   = foldl (\<lambda>log (name, i). OrderedMap_Set log name (f i)) log
       (filter (\<lambda>(name, i). name \<noteq> '''') (zip names idx))"
proof -
  have z: "zip names (map f idx) = map (\<lambda>(name, i). (name, f i)) (zip names idx)"
    by (simp add: zip_map2)
  show ?thesis
    by (simp add: z filter_map foldl_map comp_def case_prod_unfold)
qed

text \<open>
  C6, as amended. When the pattern matches, \<^verbatim>\<open>storeCaptures\<close> calls \<open>Set\<close> once for every
  named group of the pattern, in the order of the groups, with the text the group
  captured, and with the empty string for a named group that took no part in the
  match; unnamed groups are skipped. When the pattern does not match, the
  preprocessing step leaves the record as it is.
\<close>

theorem capture_extraction_sets_named_groups:
  assumes "findGroups re s = Some (m0, gs)"
  shows "(\<exists>match. FindStringSubmatch re s = Some match \<and>
           storeCaptures re log match =
             foldl (\<lambda>log (name, i). OrderedMap_Set log name (groupText gs i)) log
               (filter (\<lambda>(name, i). name \<noteq> '''')
                  (zip (groupNames re) [0..<length (groupNames re)])))
       \<and> (\<forall>config (log' :: OrderedMap).
             FindStringSubmatch (preprocessParsed config)
               (mapIndex (om_values log') (MessageKey config)) = None
             \<longrightarrow> preprocessStep config log' = log')"
proof (intro conjI allI impI)
  let ?match = "m0 # map (groupText gs) [0..<length (groupNames re)]"
  have m: "FindStringSubmatch re s = Some ?match"
    using assms by (simp add: FindStringSubmatch_def)
  then have len: "length ?match = length (SubexpNames re)"
    by (rule FindStringSubmatch_length)
  have "storeCaptures re log ?match =
          foldl (\<lambda>log (name, i). OrderedMap_Set log name (groupText gs i)) log
            (filter (\<lambda>(name, i). name \<noteq> '''') (zip (groupNames re) [0..<length (groupNames re)]))"
    by (simp only: storeCaptures_calls[OF len] list.sel Set_calls_texts)
  with m show "\<exists>match. FindStringSubmatch re s = Some match \<and>
           storeCaptures re log match =
             foldl (\<lambda>log (name, i). OrderedMap_Set log name (groupText gs i)) log
               (filter (\<lambda>(name, i). name \<noteq> '''')
                  (zip (groupNames re) [0..<length (groupNames re)]))"
    by blast
next
  fix config :: Config and log' :: OrderedMap
  assume "FindStringSubmatch (preprocessParsed config)
               (mapIndex (om_values log') (MessageKey config)) = None"
  then show "preprocessStep config log' = log'"
    by (simp add: preprocessStep_def)
qed

theorem capture_extraction_sets_named_groups_witness:
  "(\<exists>match. FindStringSubmatch optionalGroupRegexp ''ab'' = Some match \<and>
      storeCaptures optionalGroupRegexp NewOrderedMap match =
        \<lparr>om_keys = [''x''], om_values = [''x'' \<mapsto> ''b'']\<rparr>)
   \<and> preprocessStep optionalGroupConfig (seed exampleEnv ''zero'' optionalGroupConfig)
       = seed exampleEnv ''zero'' optionalGroupConfig"
proof -
  have f: "findGroups optionalGroupRegexp ''ab'' = Some (''ab'', [Some ''b''])"
    by (simp add: optionalGroupRegexp_def)
  note t = capture_extraction_sets_named_groups[OF f, of NewOrderedMap]
  from t have a: "\<exists>match. FindStringSubmatch optionalGroupRegexp ''ab'' = Some match \<and>
      storeCaptures optionalGroupRegexp NewOrderedMap match =
        \<lparr>om_keys = [''x''], om_values = [''x'' \<mapsto> ''b'']\<rparr>"
    by (simp add: optionalGroupRegexp_def NewOrderedMap_def OrderedMap_Set_def groupText_def)
  have n: "FindStringSubmatch (preprocessParsed optionalGroupConfig)
             (mapIndex (om_values (seed exampleEnv ''zero'' optionalGroupConfig))
                (MessageKey optionalGroupConfig)) = None"
    by (simp add: optionalGroupConfig_def optionalGroupRegexp_def zeroConfig_def seed_def
          NewOrderedMap_def OrderedMap_Set_def Let_def mapIndex_def FindStringSubmatch_def)
  from t n have b: "preprocessStep optionalGroupConfig (seed exampleEnv ''zero'' optionalGroupConfig)
       = seed exampleEnv ''zero'' optionalGroupConfig"
    by blast
  from a b show ?thesis by (rule conjI)
qed

text \<open>
  The claim C6 as it stands fails: on the subject \<open>a\<close> the group \<open>x\<close> of \<^verbatim>\<open>^a(?P<x>b)?\<close>
  takes no part in the match, and \<^verbatim>\<open>storeCaptures\<close> sets the field \<open>x\<close> all the same, to
  the empty string.
\<close>

theorem unmatched_group_is_set_counterexample:
  "FindStringSubmatch optionalGroupRegexp ''a'' = Some [''a'', ''''] \<and>
   \<not> participated optionalGroupRegexp ''a'' 1 \<and>
   storeCaptures optionalGroupRegexp NewOrderedMap [''a'', ''''] =
       \<lparr>om_keys = [''x''], om_values = [''x'' \<mapsto> '''']\<rparr>"
  by (simp add: optionalGroupRegexp_def NewOrderedMap_def OrderedMap_Set_def groupText_def
        FindStringSubmatch_def participated_def storeCaptures_def SubexpNames_def)

lemma Set_calls_frame:
  "k \<notin> fst ` set kvs \<Longrightarrow>
   om_values (foldl (\<lambda>log (name, v). OrderedMap_Set log name v) log kvs) k = om_values log k"
  by (simp add: Set_calls_values map_add_def map_of_eq_None_iff[THEN iffD2])

lemma storeCaptures_frame:
  assumes "FindStringSubmatch re s = Some match" and "k \<notin> set (groupNames re)"
  shows "om_values (storeCaptures re log match) k = om_values log k"
proof -
  have len: "length match = length (SubexpNames re)"
    using assms(1) by (rule FindStringSubmatch_length)
  have "k \<notin> fst ` set (filter (\<lambda>(name, v). name \<noteq> '''') (zip (groupNames re) (tl match)))"
    using assms(2) by (auto dest: set_zip_leftD)
  then have "om_values (foldl (\<lambda>log (name, v). OrderedMap_Set log name v) log
       (filter (\<lambda>(name, v). name \<noteq> '''') (zip (groupNames re) (tl match)))) k = om_values log k"
    by (rule Set_calls_frame)
  then show ?thesis
    by (simp only: storeCaptures_calls[OF len])
qed

text \<open>
  C9, as amended. When no group of the preprocessing pattern is named like the message
  key, the preprocessing step leaves the value of the message key as it is.
\<close>

theorem preprocess_keeps_message:
  assumes "MessageKey config \<notin> set (groupNames (preprocessParsed config))"
  shows "om_values (preprocessStep config log) (MessageKey config) = om_values log (MessageKey config)"
  using assms by (auto simp: preprocessStep_def storeCaptures_frame split: option.splits)

theorem preprocess_keeps_message_witness:
  "om_values (preprocessStep captureTextConfig (seed exampleEnv ''>hello'' captureTextConfig)) ''message''
     = Some ''>hello'' \<and>
   om_values (preprocessStep captureTextConfig (seed exampleEnv ''>hello'' captureTextConfig)) ''text''
     = Some ''hello''"
  using preprocess_keeps_message[of captureTextConfig "seed exampleEnv ''>hello'' captureTextConfig"]
  by (simp add: captureTextConfig_def zeroConfig_def restRegexp_def seed_def NewOrderedMap_def
        OrderedMap_Set_def Let_def preprocessStep_def FindStringSubmatch_def mapIndex_def
        storeCaptures_def SubexpNames_def groupText_def)

text \<open>
  The claim C9 as it stands fails: with the preprocessing pattern
  \<^verbatim>\<open>(?s)^.(?P<message>.*)$\<close> and the message key \<open>message\<close>, the line \<^verbatim>\<open>>hello\<close> enters
  preprocessing as the message and leaves it as \<open>hello\<close>.
\<close>

theorem preprocess_overwrites_message_counterexample:
  "om_values (seed exampleEnv ''>hello'' captureMessageConfig) (MessageKey captureMessageConfig)
     = Some ''>hello'' \<and>
   om_values (preprocessStep captureMessageConfig (seed exampleEnv ''>hello'' captureMessageConfig))
     (MessageKey captureMessageConfig) = Some ''hello''"
  by (simp add: captureMessageConfig_def zeroConfig_def restRegexp_def seed_def NewOrderedMap_def
        OrderedMap_Set_def Let_def preprocessStep_def FindStringSubmatch_def mapIndex_def
        storeCaptures_def SubexpNames_def groupText_def)

section \<open>A rule's level without a level key\<close>

lemma storeCaptures_frame_unnamed:
  assumes "FindStringSubmatch re s = Some match"
  shows "om_values (storeCaptures re log match) '''' = om_values log ''''"
proof -
  have len: "length match = length (SubexpNames re)"
    using assms(1) by (rule FindStringSubmatch_length)
  have "'''' \<notin> fst ` set (filter (\<lambda>(name, v). name \<noteq> '''') (zip (groupNames re) (tl match)))"
    by auto
  then have "om_values (foldl (\<lambda>log (name, v). OrderedMap_Set log name v) log
       (filter (\<lambda>(name, v). name \<noteq> '''') (zip (groupNames re) (tl match)))) '''' = om_values log ''''"
    by (rule Set_calls_frame)
  then show ?thesis
    by (simp only: storeCaptures_calls[OF len])
qed

lemma add_loop_frame:
  "k \<notin> set order \<Longrightarrow>
   om_values (foldl (\<lambda>log k. OrderedMap_Set log k (mapIndex add k)) log order) k = om_values log k"
  by (induction order arbitrary: log) (auto simp: OrderedMap_Set_values)

lemma statsdTags_map:
  "statsdTags order m config =
     map (\<lambda>k. k @ '':'' @ mapIndex m k)
       (filter (\<lambda>k. k \<noteq> MessageKey config) (rangeKeys order m))"
proof -
  have "foldl (\<lambda>tags k. if k \<noteq> MessageKey config then tags @ [k @ '':'' @ mapIndex m k] else tags)
          acc ks
        = acc @ map (\<lambda>k. k @ '':'' @ mapIndex m k) (filter (\<lambda>k. k \<noteq> MessageKey config) ks)"
    for acc ks
    by (induction ks arbitrary: acc) auto
  then show ?thesis by (simp add: statsdTags_def)
qed

lemma Set_calls_keys:
  "set (om_keys (foldl (\<lambda>log (name, v). OrderedMap_Set log name v) log kvs))
     \<subseteq> set (om_keys log) \<union> fst ` set kvs"
proof (induction kvs arbitrary: log)
  case Nil
  then show ?case by simp
next
  case (Cons kv kvs)
  obtain name v where kv: "kv = (name, v)" by (cases kv)
  have "set (om_keys (OrderedMap_Set log name v)) \<subseteq> insert name (set (om_keys log))"
    by (auto simp: OrderedMap_Set_keys)
  with Cons.IH[of "OrderedMap_Set log name v"] show ?case
    by (auto simp: kv)
qed

lemma storeCaptures_keys_unnamed:
  assumes "FindStringSubmatch re s = Some match" and "'''' \<notin> set (om_keys log)"
  shows "'''' \<notin> set (om_keys (storeCaptures re log match))"
proof -
  have len: "length match = length (SubexpNames re)"
    using assms(1) by (rule FindStringSubmatch_length)
  let ?kvs = "filter (\<lambda>(name, v). name \<noteq> '''') (zip (groupNames re) (tl match))"
  have "'''' \<notin> fst ` set ?kvs" by auto
  with assms(2) Set_calls_keys[of log ?kvs]
  have "'''' \<notin> set (om_keys (foldl (\<lambda>log (name, v). OrderedMap_Set log name v) log ?kvs))"
    by blast
  then show ?thesis by (simp add: storeCaptures_calls[OF len])
qed

lemma add_loop_keys:
  "k \<notin> set order \<Longrightarrow> k \<notin> set (om_keys log) \<Longrightarrow>
   k \<notin> set (om_keys (foldl (\<lambda>log k. OrderedMap_Set log k (mapIndex add k)) log order))"
  by (induction order arbitrary: log) (auto simp: OrderedMap_Set_keys)

lemma glogStep_keys: "om_keys (glogStep env config log) = om_keys log"
  by (simp add: glogStep_def Let_def split: option.splits)

lemma beforeRules_keys_unnamed:
  assumes "MessageKey config \<noteq> ''''" and "\<not> levelKeySet config"
    and "timestampKeySet config \<longrightarrow> TimestampKey config \<noteq> ''''"
  shows "'''' \<notin> set (om_keys (beforeRules env line config))"
proof -
  have s: "'''' \<notin> set (om_keys (seed env line config))"
    using assms by (auto simp: seed_def Let_def NewOrderedMap_def OrderedMap_Set_keys)
  then have "'''' \<notin> set (om_keys (preprocessStep config (seed env line config)))"
    by (auto simp: preprocessStep_def storeCaptures_keys_unnamed split: option.splits)
  then show ?thesis by (simp add: beforeRules_def glogStep_keys)
qed

lemma applyPattern_keys_unnamed:
  assumes "FindStringSubmatch (regexParsed p) s = Some match"
    and "\<forall>add. Add p = Some add \<longrightarrow> add '''' = None"
    and "'''' \<notin> set (om_keys log)"
  shows "'''' \<notin> set (om_keys (applyPattern env config i p match log))"
proof -
  let ?log1 = "if levelSet p
               then log\<lparr>om_values := (om_values log)(LevelKey config \<mapsto> Level p)\<rparr> else log"
  have "'''' \<notin> set (om_keys ?log1)" using assms(3) by simp
  with assms(1) have k2: "'''' \<notin> set (om_keys (storeCaptures (regexParsed p) ?log1 match))"
    by (rule storeCaptures_keys_unnamed)
  show ?thesis
  proof (cases "Add p")
    case None
    with k2 show ?thesis by (simp add: applyPattern_def Let_def)
  next
    case (Some add)
    with assms(2) have "'''' \<notin> set (rangeKeys (addOrder env i) add)"
      by (simp add: rangeKeys_def)
    from add_loop_keys[OF this k2, of add] Some show ?thesis
      by (simp add: applyPattern_def Let_def)
  qed
qed

lemma applyPattern_level_at_empty_key:
  assumes "LevelKey config = ''''" "levelSet p"
    and "FindStringSubmatch (regexParsed p) s = Some match"
    and "\<forall>add. Add p = Some add \<longrightarrow> add '''' = None"
  shows "om_values (applyPattern env config i p match log) '''' = Some (Level p)"
proof (cases "Add p")
  case None
  with assms(1-3) show ?thesis
    by (simp add: applyPattern_def Let_def storeCaptures_frame_unnamed)
next
  case (Some add)
  with assms(4) have "'''' \<notin> set (rangeKeys (addOrder env i) add)"
    by (simp add: rangeKeys_def)
  with Some assms(1-3) show ?thesis
    by (simp add: applyPattern_def Let_def storeCaptures_frame_unnamed add_loop_frame)
qed

text \<open>
  C10, as amended. Line 312 writes the level of the matching rule into the values under
  the configured level key without asking whether a level key is configured. With no
  level key (the empty name), a message key that is not empty, and a first matching
  rule that does not discard, sets a level and has no addition under the empty key,
  the record that is built holds the rule's level under the empty key; the write goes
  to the values only, so the empty key does not enter the record's list of keys (for a
  configuration whose flags are those of \<^verbatim>\<open>readConfig\<close>); and when the second backend is
  enabled, its increment carries the tag made of a colon and that level.
\<close>

theorem level_without_level_key:
  assumes "LevelKey config = ''''" and "MessageKey config \<noteq> ''''" and "statsd config"
    and "Patterns config = ps1 @ p # ps2"
    and "\<forall>q \<in> set ps1. FindStringSubmatch (regexParsed q)
           (mapIndex (om_values (beforeRules env line config)) (MessageKey config)) = None"
    and "FindStringSubmatch (regexParsed p)
           (mapIndex (om_values (beforeRules env line config)) (MessageKey config)) \<noteq> None"
    and "\<not> Discard p" and "levelSet p"
    and "\<forall>add. Add p = Some add \<longrightarrow> add '''' = None"
  shows "\<exists>log. buildRecord env line config = Some log
           \<and> om_values log '''' = Some (Level p)
           \<and> (\<not> levelKeySet config \<and> (timestampKeySet config \<longrightarrow> TimestampKey config \<noteq> '''')
                \<longrightarrow> '''' \<notin> set (om_keys log))
           \<and> (rangeOrder (om_values log) (tagOrder env) \<longrightarrow>
                StatsdIncr (StatsdMetric config) (statsdTags (tagOrder env) (om_values log) config)
                  \<in> set (processLine env line config)
                \<and> '':'' @ Level p \<in> set (statsdTags (tagOrder env) (om_values log) config))"
proof -
  let ?before = "beforeRules env line config"
  from assms(6) obtain match where m: "FindStringSubmatch (regexParsed p)
           (mapIndex (om_values ?before) (MessageKey config)) = Some match"
    by auto
  let ?log = "applyPattern env config (length ps1) p match ?before"
  have "applyPatterns env config 0 (ps1 @ p # ps2) ?before
        = applyPatterns env config (0 + length ps1) (p # ps2) ?before"
    using assms(5) by (rule applyPatterns_skip)
  with m assms(4,7) have built: "buildRecord env line config = Some ?log"
    by (simp add: buildRecord_def)
  have level: "om_values ?log '''' = Some (Level p)"
    using assms(1,8) m assms(9) by (rule applyPattern_level_at_empty_key)
  have order_list: "'''' \<notin> set (om_keys ?log)"
    if "\<not> levelKeySet config \<and> (timestampKeySet config \<longrightarrow> TimestampKey config \<noteq> '''')"
  proof -
    from assms(2) that have "'''' \<notin> set (om_keys ?before)"
      by (simp add: beforeRules_keys_unnamed)
    with m assms(9) show ?thesis by (rule applyPattern_keys_unnamed)
  qed
  have tags: "StatsdIncr (StatsdMetric config) (statsdTags (tagOrder env) (om_values ?log) config)
                  \<in> set (processLine env line config)
                \<and> '':'' @ Level p \<in> set (statsdTags (tagOrder env) (om_values ?log) config)"
    if order: "rangeOrder (om_values ?log) (tagOrder env)"
  proof
    show "StatsdIncr (StatsdMetric config) (statsdTags (tagOrder env) (om_values ?log) config)
            \<in> set (processLine env line config)"
      using assms(3) by (simp add: processLine_def built emit_def)
    from order level have "'''' \<in> set (rangeKeys (tagOrder env) (om_values ?log))"
      by (auto simp: rangeKeys_rangeOrder rangeOrder_def)
    with assms(2) level
    show "'':'' @ Level p \<in> set (statsdTags (tagOrder env) (om_values ?log) config)"
      by (force simp: statsdTags_map mapIndex_def image_iff)
  qed
  from built level order_list tags show ?thesis by blast
qed

lemmas boom_defs = noLevelKeyConfig_def boomRule_def boomEmptyKeyRule_def boomEnv_def
  boomEmptyKeyEnv_def infoRule_def exampleEnv_def zeroConfig_def zeroPattern_def prefixRegexp_def nilRegexp_def

theorem level_without_level_key_witness:
  "\<exists>log. buildRecord boomEnv ''boom: disk'' (noLevelKeyConfig boomRule) = Some log
      \<and> om_values log '''' = Some ''WARN''
      \<and> om_keys log = [''message'', ''kind'']
      \<and> rangeOrder (om_values log) (tagOrder boomEnv)
      \<and> processLine boomEnv ''boom: disk'' (noLevelKeyConfig boomRule)
          = [StatsdIncr ''logs'' [''kind:db'', '':WARN''], Println log]"
  using level_without_level_key[of "noLevelKeyConfig boomRule" "[infoRule]" boomRule "[]" boomEnv
      "''boom: disk''"]
  by (auto simp: boom_defs pipeline_defs buildRecord_def processLine_def emit_def rangeOrder_def
        statsdTags_def)

text \<open>
  The claim C10 as it stands fails when the rule has an addition under the empty key:
  the loop of line 319 then overwrites the level, and the tag carries the added value.
\<close>

theorem empty_add_key_replaces_level_counterexample:
  "LevelKey (noLevelKeyConfig boomEmptyKeyRule) = '''' \<and>
   levelSet boomEmptyKeyRule \<and> Level boomEmptyKeyRule = ''WARN'' \<and>
   (\<exists>log. buildRecord boomEmptyKeyEnv ''boom: disk'' (noLevelKeyConfig boomEmptyKeyRule) = Some log
      \<and> rangeOrder (om_values log) (tagOrder boomEmptyKeyEnv)
      \<and> rangeOrder ['''' \<mapsto> ''x''] (addOrder boomEmptyKeyEnv 1)
      \<and> processLine boomEmptyKeyEnv ''boom: disk'' (noLevelKeyConfig boomEmptyKeyRule)
          = [StatsdIncr ''logs'' ['':x''], Println log])"
  by (auto simp: boom_defs pipeline_defs buildRecord_def processLine_def emit_def rangeOrder_def
        statsdTags_def)

section \<open>The schema and the order of map traversals\<close>

lemma prometheusAddCaptures_names:
  "prometheusAddCaptures re labels = labels @ filter (\<lambda>name. name \<noteq> '''') (groupNames re)"
proof -
  have "foldl (\<lambda>labels name. if name \<noteq> '''' then labels @ [name] else labels) acc names
          = acc @ filter (\<lambda>name. name \<noteq> '''') names" for acc names
    by (induction names arbitrary: acc) auto
  then show ?thesis by (simp add: prometheusAddCaptures_def SubexpNames_def)
qed

lemma labels_loop_set:
  "validOrders its i ps \<Longrightarrow>
   set (labels_loop its i ps labels) = set labels \<union> (\<Union>p \<in> set ps. ruleLabels p)"
proof (induction ps arbitrary: i labels)
  case Nil
  then show ?case by simp
next
  case (Cons p ps)
  from Cons.prems have here: "case Add p of None \<Rightarrow> True | Some add \<Rightarrow> rangeOrder add (its i)"
    and rest: "validOrders its (Suc i) ps"
    by simp_all
  note IH = Cons.IH[OF rest]
  show ?case
  proof (cases "Discard p")
    case True
    then show ?thesis by (simp add: IH ruleLabels_def)
  next
    case False
    with here show ?thesis
      by (auto simp: IH ruleLabels_def Let_def prometheusAddCaptures_names keys_order
            rangeKeys_rangeOrder rangeOrder_def split: option.splits)
  qed
qed

lemma schema_names_independent_of_order:
  assumes "validOrders its1 0 (Patterns config)" and "validOrders its2 0 (Patterns config)"
  shows "set (prometheusMetricLabels its1 config) = set (prometheusMetricLabels its2 config)"
    and "length (prometheusMetricLabels its1 config) = length (prometheusMetricLabels its2 config)"
proof -
  show s: "set (prometheusMetricLabels its1 config) = set (prometheusMetricLabels its2 config)"
    using assms
    by (simp add: prometheusMetricLabels_def Let_def removeElement_filter unique_set labels_loop_set)
  have "distinct (prometheusMetricLabels its1 config)" "distinct (prometheusMetricLabels its2 config)"
    by (simp_all add: prometheusMetricLabels_def Let_def removeElement_filter unique_distinct)
  with s show "length (prometheusMetricLabels its1 config) = length (prometheusMetricLabels its2 config)"
    by (metis distinct_card)
qed

text \<open>
  C3. The claim fails on the code: \<^verbatim>\<open>keys\<close> returns the keys of the \<^verbatim>\<open>Add\<close> map in the
  order of one traversal of a Go map and does not sort them. For a rule with the
  additions \<open>a\<close> and \<open>b\<close>, both orders are traversals Go may choose; with one of them
  \<^verbatim>\<open>readConfig\<close> caches the schema \<open>a, b\<close>, and with the other \<^verbatim>\<open>main\<close> registers the
  counter with the labels \<open>b, a\<close>. The two derivations agree on the names and on their
  number only (lemma \<open>schema_names_independent_of_order\<close>).
\<close>

theorem schema_order_follows_map_traversal:
  "rangeOrder [''a'' \<mapsto> ''1'', ''b'' \<mapsto> ''2''] [''a'', ''b''] \<and>
   rangeOrder [''a'' \<mapsto> ''1'', ''b'' \<mapsto> ''2''] [''b'', ''a''] \<and>
   (\<exists>config. readConfig (\<lambda>i. [''a'', ''b'']) compileExample twoAdditionsParsed = Some config
      \<and> prometheus config
      \<and> prometheusMetricLabels_field config = [''a'', ''b'']
      \<and> main_registered_labels (\<lambda>i. [''b'', ''a'']) config = Some [''b'', ''a''])"
  by (auto simp: rangeOrder_def readConfig_def twoAdditionsParsed_def compileExample_def zeroConfig_def
        zeroPattern_def prefixRegexp_def nilRegexp_def main_registered_labels_def
        prometheusMetricLabels_def prometheusAddCaptures_def SubexpNames_def keys_def rangeKeys_def unique_def
        removeElement_def Let_def)

end
